theory Spec2Isabelle
  imports Complex_Main "HOL-Library.Log_Nat"
begin

section \<open>The ASCII art converter: \<^verbatim>\<open>ascii_art.py\<close>\<close>

text \<open>
  The module has one function of substance, \<^verbatim>\<open>image_to_ascii\<close>. It checks that the
  path names a file, validates the gradient, opens the image with Pillow, converts it to
  the single 8-bit band \<^verbatim>\<open>"L"\<close>, computes the output height, resizes, maps every pixel
  to a character of the gradient and joins rows of \<^verbatim>\<open>width\<close> characters with newlines.

  Every \<^verbatim>\<open>raise\<close> of the function, and every exception of a Python primitive it uses,
  is a value: the function returns \<open>error + string\<close>, \<open>Inl\<close> being the exception raised.

  A Python \<^verbatim>\<open>str\<close> is a \<open>string\<close>, one \<open>char\<close> for each of its characters: the function
  only counts, reverses, indexes and concatenates them, and the one character it names
  is the newline, \<open>CHR 0x0A\<close>.
\<close>

subsection \<open>Exceptions and sequencing\<close>

datatype error =
    FileNotFoundError string
  | ValueError string
  | OverflowError string
  | ZeroDivisionError string
  | IndexError string
  | OSError string

definition bind_res :: "error + 'a \<Rightarrow> ('a \<Rightarrow> error + 'b) \<Rightarrow> error + 'b" where
  "bind_res r f = (case r of Inl e \<Rightarrow> Inl e | Inr v \<Rightarrow> f v)"

text \<open>A list comprehension whose element expression may raise: the first exception ends it.\<close>

fun map_res :: "('a \<Rightarrow> error + 'b) \<Rightarrow> 'a list \<Rightarrow> error + 'b list" where
  "map_res f [] = Inr []"
| "map_res f (x # xs) =
     bind_res (f x) (\<lambda>y. bind_res (map_res f xs) (\<lambda>ys. Inr (y # ys)))"

subsection \<open>Python floats\<close>

text \<open>
  A Python \<^verbatim>\<open>float\<close> is an IEEE 754 double: a finite value, which is a rational number,
  one of the two infinities, or not-a-number. The sign of zero plays no part in this
  program (it only multiplies and truncates), so both zeros are \<open>Finite 0\<close>.

  The arithmetic takes the rounding of an exact result to a double as an argument,
  \<open>rnd\<close>: it returns the nearest double, or an infinity when the result is out of
  range. The rounding of CPython is \<open>round_double\<close> below. The rules for the special
  values are those of IEEE 754 multiplication.
\<close>

datatype pyfloat = Finite rat | PosInf | NegInf | NaN

text \<open>\<^verbatim>\<open>a / b\<close> on two \<^verbatim>\<open>int\<close>s: true division, correctly rounded.\<close>

definition int_truediv :: "(rat \<Rightarrow> pyfloat) \<Rightarrow> int \<Rightarrow> int \<Rightarrow> error + pyfloat" where
  "int_truediv rnd a b =
     (if b = 0 then Inl (ZeroDivisionError ''division by zero'')
      else case rnd (rat_of_int a / rat_of_int b) of
             Finite r \<Rightarrow> Inr (Finite r)
           | _ \<Rightarrow> Inl (OverflowError ''integer division result too large for a float''))"

text \<open>The conversion of an \<^verbatim>\<open>int\<close> operand when the other operand is a \<^verbatim>\<open>float\<close>.\<close>

definition int_to_float :: "(rat \<Rightarrow> pyfloat) \<Rightarrow> int \<Rightarrow> error + pyfloat" where
  "int_to_float rnd i =
     (case rnd (rat_of_int i) of
        Finite r \<Rightarrow> Inr (Finite r)
      | _ \<Rightarrow> Inl (OverflowError ''int too large to convert to float''))"

text \<open>\<^verbatim>\<open>x * y\<close> on two \<^verbatim>\<open>float\<close>s: it never raises, overflow gives an infinity.\<close>

fun float_mul :: "(rat \<Rightarrow> pyfloat) \<Rightarrow> pyfloat \<Rightarrow> pyfloat \<Rightarrow> pyfloat" where
  "float_mul rnd NaN y = NaN"
| "float_mul rnd x NaN = NaN"
| "float_mul rnd (Finite a) (Finite b) = rnd (a * b)"
| "float_mul rnd (Finite a) PosInf = (if 0 < a then PosInf else if a < 0 then NegInf else NaN)"
| "float_mul rnd (Finite a) NegInf = (if 0 < a then NegInf else if a < 0 then PosInf else NaN)"
| "float_mul rnd PosInf (Finite b) = (if 0 < b then PosInf else if b < 0 then NegInf else NaN)"
| "float_mul rnd NegInf (Finite b) = (if 0 < b then NegInf else if b < 0 then PosInf else NaN)"
| "float_mul rnd PosInf PosInf = PosInf"
| "float_mul rnd PosInf NegInf = NegInf"
| "float_mul rnd NegInf PosInf = NegInf"
| "float_mul rnd NegInf NegInf = PosInf"

text \<open>\<^verbatim>\<open>int(x)\<close> on a \<^verbatim>\<open>float\<close>: truncation towards zero; it raises on the special values.\<close>

definition py_int :: "pyfloat \<Rightarrow> error + int" where
  "py_int x =
     (case x of
        Finite r \<Rightarrow> Inr (if 0 \<le> r then \<lfloor>r\<rfloor> else \<lceil>r\<rceil>)
      | PosInf \<Rightarrow> Inl (OverflowError ''cannot convert float infinity to integer'')
      | NegInf \<Rightarrow> Inl (OverflowError ''cannot convert float infinity to integer'')
      | NaN \<Rightarrow> Inl (ValueError ''cannot convert float NaN to integer''))"

text \<open>
  The comparisons \<^verbatim>\<open>x > 0\<close>, \<^verbatim>\<open>x <= 0\<close> and \<^verbatim>\<open>x >= 0\<close> on a \<^verbatim>\<open>float\<close> (all false on
  NaN).
\<close>

fun float_pos :: "pyfloat \<Rightarrow> bool" where
  "float_pos (Finite r) = (0 < r)"
| "float_pos PosInf = True"
| "float_pos NegInf = False"
| "float_pos NaN = False"

fun float_nonpos :: "pyfloat \<Rightarrow> bool" where
  "float_nonpos (Finite r) = (r \<le> 0)"
| "float_nonpos PosInf = False"
| "float_nonpos NegInf = True"
| "float_nonpos NaN = False"

fun float_nonneg :: "pyfloat \<Rightarrow> bool" where
  "float_nonneg (Finite r) = (0 \<le> r)"
| "float_nonneg PosInf = True"
| "float_nonneg NegInf = False"
| "float_nonneg NaN = False"

text \<open>
  What the proofs below need of rounding to nearest: it keeps the sign of the exact
  result and yields no NaN (so zero rounds to zero).
\<close>

definition rnd_keeps_sign :: "(rat \<Rightarrow> pyfloat) \<Rightarrow> bool" where
  "rnd_keeps_sign rd \<longleftrightarrow>
     (\<forall>q. (0 \<le> q \<longrightarrow> float_nonneg (rd q)) \<and> (q \<le> 0 \<longrightarrow> float_nonpos (rd q)))"

text \<open>
  Rounding to the nearest double, ties to the even significand (IEEE 754 binary64, the
  \<^verbatim>\<open>float\<close> of CPython). A double is \<open>n * 2 ^ t\<close> with \<open>n < 2 ^ 53\<close> and \<open>t \<ge> - 1074\<close>; for
  \<open>2 ^ e \<le> \<bar>x\<bar> < 2 ^ (e + 1)\<close> the spacing of the doubles around \<open>x\<close> is \<open>2 ^ (e - 52)\<close>, and
  \<open>2 ^ (- 1074)\<close> below \<open>2 ^ (- 1022)\<close>. A result of \<open>2 ^ 1024\<close> or more is an infinity.
\<close>

definition pow2 :: "int \<Rightarrow> rat" where
  "pow2 k = (if 0 \<le> k then rat_of_int (2 ^ nat k) else 1 / rat_of_int (2 ^ nat (- k)))"

text \<open>The exponent \<open>e\<close> with \<open>2 ^ e \<le> a < 2 ^ (e + 1)\<close>, for \<open>a > 0\<close>.\<close>

definition ilog2 :: "rat \<Rightarrow> int" where
  "ilog2 a =
     (case quotient_of a of (p, d) \<Rightarrow>
        let k = bitlen p - bitlen d in if pow2 k \<le> a then k else k - 1)"

definition round_half_even :: "rat \<Rightarrow> int" where
  "round_half_even s =
     (let n = \<lfloor>s\<rfloor>; f = s - rat_of_int n
      in if f < 1 / 2 then n else if 1 / 2 < f then n + 1
         else if even n then n else n + 1)"

definition round_double :: "rat \<Rightarrow> pyfloat" where
  "round_double x =
     (if x = 0 then Finite 0
      else let a = \<bar>x\<bar>;
               t = max (ilog2 a) (- 1022) - 52;
               r = rat_of_int (round_half_even (a / pow2 t)) * pow2 t
           in if pow2 1024 \<le> r then (if 0 < x then PosInf else NegInf)
              else Finite (if 0 < x then r else - r))"

subsection \<open>Python sequences\<close>

text \<open>\<^verbatim>\<open>s[i]\<close>: a negative index counts from the end, an index out of range raises.\<close>

definition str_getitem :: "string \<Rightarrow> int \<Rightarrow> error + char" where
  "str_getitem s i =
     (if 0 \<le> i \<and> i < int (length s) then Inr (s ! nat i)
      else if - int (length s) \<le> i \<and> i < 0 then Inr (s ! nat (int (length s) + i))
      else Inl (IndexError ''string index out of range''))"

text \<open>\<^verbatim>\<open>xs[i : j]\<close>: both bounds are clamped to the list, a negative bound counts from the end.\<close>

definition py_slice :: "'a list \<Rightarrow> int \<Rightarrow> int \<Rightarrow> 'a list" where
  "py_slice xs i j =
     (let n = int (length xs);
          lo = (if i < 0 then max 0 (n + i) else min n i);
          hi = (if j < 0 then max 0 (n + j) else min n j)
      in take (nat (hi - lo)) (drop (nat lo) xs))"

text \<open>\<^verbatim>\<open>range(start, stop, step)\<close>: a zero step raises, a negative step counts down.\<close>

function range_up :: "int \<Rightarrow> int \<Rightarrow> int \<Rightarrow> int list" where
  "range_up i stop step =
     (if 0 < step \<and> i < stop then i # range_up (i + step) stop step else [])"
  by pat_completeness auto
termination
  by (relation "measure (\<lambda>(i, stop, step). nat (stop - i))") auto

function range_down :: "int \<Rightarrow> int \<Rightarrow> int \<Rightarrow> int list" where
  "range_down i stop step =
     (if step < 0 \<and> stop < i then i # range_down (i + step) stop step else [])"
  by pat_completeness auto
termination
  by (relation "measure (\<lambda>(i, stop, step). nat (i - stop))") auto

definition py_range :: "int \<Rightarrow> int \<Rightarrow> int \<Rightarrow> error + int list" where
  "py_range start stop step =
     (if step = 0 then Inl (ValueError ''range() arg 3 must not be zero'')
      else if 0 < step then Inr (range_up start stop step)
      else Inr (range_down start stop step))"

text \<open>\<^verbatim>\<open>sep.join(rows)\<close>.\<close>

fun str_join :: "string \<Rightarrow> string list \<Rightarrow> string" where
  "str_join sep [] = []"
| "str_join sep [x] = x"
| "str_join sep (x # y # ys) = x @ sep @ str_join sep (y # ys)"

subsection \<open>The world outside the module\<close>

text \<open>
  An image in mode \<^verbatim>\<open>"L"\<close>: its \<^verbatim>\<open>size\<close> (here \<open>size_img\<close>), a pair (width, height), and the sequence
  \<^verbatim>\<open>getdata()\<close> of its pixels, row by row, as Python \<^verbatim>\<open>int\<close>s.
\<close>

record gray_image =
  size_img :: "nat \<times> nat"
  getdata :: "int list"

text \<open>
  The file system and Pillow are not code of this module: they are the fields of an
  environment. \<open>'raw\<close> is whatever \<^verbatim>\<open>Image.open\<close> returns before the conversion to
  mode \<^verbatim>\<open>"L"\<close>; each Pillow call may raise. \<open>rnd\<close> is the rounding of the float unit.
\<close>

record 'raw env =
  isfile :: "string \<Rightarrow> bool"
  Image_open :: "string \<Rightarrow> error + 'raw"
  convert_L :: "'raw \<Rightarrow> error + gray_image"
  resize :: "gray_image \<Rightarrow> int \<times> int \<Rightarrow> error + gray_image"
  rnd :: "rat \<Rightarrow> pyfloat"

subsection \<open>\<^verbatim>\<open>image_to_ascii\<close>\<close>

definition DEFAULT_GRADIENT :: string where
  "DEFAULT_GRADIENT = ''@%#*+=-:. ''"

text \<open>Line 88: \<^verbatim>\<open>orig_h * (width / orig_w) * y_scale\<close>, evaluated left to right.\<close>

definition scaled_height ::
  "(rat \<Rightarrow> pyfloat) \<Rightarrow> nat \<Rightarrow> int \<Rightarrow> nat \<Rightarrow> pyfloat \<Rightarrow> error + pyfloat" where
  "scaled_height rd orig_h width orig_w y_scale =
     bind_res (int_truediv rd width (int orig_w)) (\<lambda>q.
     bind_res (int_to_float rd (int orig_h)) (\<lambda>h.
     Inr (float_mul rd (float_mul rd h q) y_scale)))"

text \<open>Line 88: \<^verbatim>\<open>new_h = max(1, int(orig_h * (width / orig_w) * y_scale))\<close>.\<close>

definition new_height ::
  "(rat \<Rightarrow> pyfloat) \<Rightarrow> nat \<Rightarrow> int \<Rightarrow> nat \<Rightarrow> pyfloat \<Rightarrow> error + int" where
  "new_height rd orig_h width orig_w y_scale =
     bind_res (scaled_height rd orig_h width orig_w y_scale) (\<lambda>x.
     bind_res (py_int x) (\<lambda>t. Inr (max 1 t)))"

text \<open>Line 96: the element expression \<^verbatim>\<open>gradient[p * (n - 1) // 255]\<close>.\<close>

definition gradient_index :: "int \<Rightarrow> nat \<Rightarrow> int" where
  "gradient_index p n = p * (int n - 1) div 255"

definition pixel_char :: "string \<Rightarrow> int \<Rightarrow> error + char" where
  "pixel_char gradient p = str_getitem gradient (gradient_index p (length gradient))"

text \<open>Lines 91 to 100: from the resized image to the text.\<close>

definition render :: "string \<Rightarrow> int \<Rightarrow> gray_image \<Rightarrow> error + string" where
  "render gradient width img =
     (let pixels = getdata img in
      bind_res (map_res (pixel_char gradient) pixels) (\<lambda>chars.
      bind_res (py_range 0 (int (length chars)) width) (\<lambda>starts.
      let lines = map (\<lambda>i. py_slice chars i (i + width)) starts
      in Inr (str_join [CHR 0x0A] lines))))"

text \<open>Lines 69 to 100.\<close>

definition image_to_ascii ::
  "'raw env \<Rightarrow> string \<Rightarrow> int \<Rightarrow> pyfloat \<Rightarrow> bool \<Rightarrow> string option \<Rightarrow> error + string" where
  "image_to_ascii e image_path width y_scale invert gradient =
     (if \<not> isfile e image_path
      then Inl (FileNotFoundError (''Input image not found: '' @ image_path))
      else
        let gradient = (case gradient of Some g \<Rightarrow> g | None \<Rightarrow> DEFAULT_GRADIENT) in
        if length gradient < 2
        then Inl (ValueError ''Gradient must contain at least 2 characters.'')
        else
          let gradient = (if invert then rev gradient else gradient) in
          bind_res (Image_open e image_path) (\<lambda>raw.
          bind_res (convert_L e raw) (\<lambda>img.
          let (orig_w, orig_h) = size_img img in
          if orig_w = 0 \<or> orig_h = 0
          then Inl (ValueError ''Image has invalid dimensions (0).'')
          else
            bind_res (new_height (rnd e) orig_h width orig_w y_scale) (\<lambda>new_h.
            bind_res (resize e img (width, new_h)) (\<lambda>img.
            render gradient width img)))))"

subsection \<open>Reading the result\<close>

text \<open>
  How a reader takes the returned text apart: \<^verbatim>\<open>text.split(c)\<close> cuts at every occurrence
  of the separator (the empty text gives one empty row), and row \<open>j\<close> of a flat sequence
  is its \<open>j\<close>-th block of \<open>W\<close> elements.
\<close>

fun split_on :: "char \<Rightarrow> string \<Rightarrow> string list" where
  "split_on c [] = [[]]"
| "split_on c (x # xs) =
     (if x = c then [] # split_on c xs
      else case split_on c xs of [] \<Rightarrow> [[x]] | r # rs \<Rightarrow> (x # r) # rs)"

definition rows_of :: "'a list \<Rightarrow> int \<Rightarrow> nat \<Rightarrow> 'a list list" where
  "rows_of cs W h = map (\<lambda>j. take (nat W) (drop (j * nat W) cs)) [0..<h]"

subsection \<open>The formulas of the specification\<close>

text \<open>
  The specification's character for a pixel, \<open>gradient[floor(p * (n - 1) / 255)]\<close>, and
  its height, \<open>max(1, floor(origHeight * (targetWidth / origWidth) * yScale))\<close>, both in
  exact rational arithmetic.
\<close>

definition spec_char :: "string \<Rightarrow> int \<Rightarrow> char" where
  "spec_char gradient p =
     gradient ! nat \<lfloor>rat_of_int p * (rat_of_nat (length gradient) - 1) / 255\<rfloor>"

definition spec_new_height :: "nat \<Rightarrow> int \<Rightarrow> nat \<Rightarrow> rat \<Rightarrow> int" where
  "spec_new_height orig_h width orig_w y_scale =
     max 1 \<lfloor>rat_of_nat orig_h * (rat_of_int width / rat_of_nat orig_w) * y_scale\<rfloor>"

subsection \<open>A small world for the examples\<close>

text \<open>
  A uniformly gray image file \<^verbatim>\<open>gray.png\<close>, the only file of a small world. Resizing a
  uniform image gives a uniform image under every resampling filter, so \<open>fill_resize\<close>
  stands for Pillow's \<^verbatim>\<open>resize\<close> there; like Pillow it rejects an empty target size.
  The float unit is \<open>round_double\<close>.
\<close>

definition fill_resize :: "gray_image \<Rightarrow> int \<times> int \<Rightarrow> error + gray_image" where
  "fill_resize img wh =
     (case wh of (w, h) \<Rightarrow>
        if w \<le> 0 \<or> h \<le> 0 then Inl (ValueError ''height and width must be > 0'')
        else Inr \<lparr>size_img = (nat w, nat h),
                  getdata = replicate (nat w * nat h)
                              (case getdata img of [] \<Rightarrow> 0 | p # _ \<Rightarrow> p)\<rparr>)"

definition uniform_env :: "nat \<Rightarrow> nat \<Rightarrow> int \<Rightarrow> gray_image env" where
  "uniform_env w h v =
     \<lparr>isfile = (\<lambda>p. p = ''gray.png''),
      Image_open = (\<lambda>p. if p = ''gray.png''
                         then Inr \<lparr>size_img = (w, h), getdata = replicate (w * h) v\<rparr>
                         else Inl (FileNotFoundError p)),
      convert_L = Inr,
      resize = fill_resize,
      rnd = round_double\<rparr>"

section \<open>Properties\<close>

subsection \<open>Auxiliary facts\<close>

lemma bind_res_simps [simp]:
  "bind_res (Inl e) f = Inl e" "bind_res (Inr v) f = f v"
  by (simp_all add: bind_res_def)

lemma gradient_index_bounds:
  assumes "0 \<le> p" "p \<le> 255" "1 \<le> n"
  shows "0 \<le> gradient_index p n" "gradient_index p n \<le> int n - 1"
proof -
  have m: "0 \<le> int n - 1" using assms by simp
  show "0 \<le> gradient_index p n"
    unfolding gradient_index_def using assms m by (simp add: pos_imp_zdiv_nonneg_iff)
  have "p * (int n - 1) \<le> 255 * (int n - 1)"
    using assms m by (intro mult_right_mono) auto
  then have "p * (int n - 1) div 255 \<le> 255 * (int n - 1) div 255"
    by (rule zdiv_mono1) simp
  then show "gradient_index p n \<le> int n - 1"
    unfolding gradient_index_def by simp
qed

lemma pixel_char_ok:
  assumes "0 \<le> p" "p \<le> 255" "1 \<le> length g"
  shows "pixel_char g p = Inr (g ! nat (gradient_index p (length g)))"
  using gradient_index_bounds[OF assms]
  by (simp add: pixel_char_def str_getitem_def Let_def)

lemma map_res_pixel_char:
  assumes "\<forall>p \<in> set ps. 0 \<le> p \<and> p \<le> 255" "1 \<le> length g"
  shows "map_res (pixel_char g) ps =
         Inr (map (\<lambda>p. g ! nat (gradient_index p (length g))) ps)"
  using assms by (induction ps) (simp_all add: pixel_char_ok)

lemma gradient_index_floor:
  "gradient_index p n = \<lfloor>rat_of_int p * (rat_of_nat n - 1) / 255\<rfloor>"
  unfolding gradient_index_def
  using floor_divide_of_int_eq[of "p * (int n - 1)" 255, where ?'a = rat]
  by simp

text \<open>Signs through the float arithmetic of line 88.\<close>

lemma float_mul_nonneg:
  assumes "rnd_keeps_sign rd" "float_nonneg x" "float_nonneg y"
  shows "float_mul rd x y = NaN \<or> float_nonneg (float_mul rd x y)"
  using assms by (cases x; cases y) (auto simp: rnd_keeps_sign_def)

lemma float_mul_nonneg_nonpos:
  assumes "rnd_keeps_sign rd" "float_nonneg x" "float_nonpos y"
  shows "float_mul rd x y = NaN \<or> float_nonpos (float_mul rd x y)"
  using assms by (cases x; cases y) (auto simp: rnd_keeps_sign_def mult_nonneg_nonpos)

lemma float_pos_nonneg: "float_pos y \<Longrightarrow> float_nonneg y"
  by (cases y) auto

lemma int_truediv_nonneg:
  assumes "rnd_keeps_sign rd" "0 \<le> a" "0 < b" "int_truediv rd a b = Inr q"
  shows "float_nonneg q"
proof -
  have "0 \<le> rat_of_int a / rat_of_int b" using assms(2,3) by simp
  then have "float_nonneg (rd (rat_of_int a / rat_of_int b))"
    using assms(1) by (simp add: rnd_keeps_sign_def)
  then show ?thesis using assms(3,4)
    by (cases "rd (rat_of_int a / rat_of_int b)") (auto simp: int_truediv_def)
qed

lemma int_to_float_nonneg:
  assumes "rnd_keeps_sign rd" "0 \<le> i" "int_to_float rd i = Inr h"
  shows "float_nonneg h"
proof -
  have "float_nonneg (rd (rat_of_int i))"
    using assms(1,2) by (simp add: rnd_keeps_sign_def)
  then show ?thesis using assms(3)
    by (cases "rd (rat_of_int i)") (auto simp: int_to_float_def)
qed

lemma scaled_height_cases:
  assumes "scaled_height rd orig_h width orig_w y = Inr x"
  obtains q h where "int_truediv rd width (int orig_w) = Inr q"
    "int_to_float rd (int orig_h) = Inr h" "x = float_mul rd (float_mul rd h q) y"
  using assms unfolding scaled_height_def bind_res_def
  by (auto split: sum.splits)

lemma scaled_height_nonneg:
  assumes "rnd_keeps_sign rd" "0 < orig_w" "0 \<le> width" "float_pos y"
    and "scaled_height rd orig_h width orig_w y = Inr (Finite r)"
  shows "0 \<le> r"
proof -
  from assms(5) obtain q h where q: "int_truediv rd width (int orig_w) = Inr q"
    and h: "int_to_float rd (int orig_h) = Inr h"
    and x: "Finite r = float_mul rd (float_mul rd h q) y"
    by (rule scaled_height_cases)
  have qn: "float_nonneg q" using int_truediv_nonneg[OF assms(1) assms(3) _ q] assms(2) by simp
  have hn: "float_nonneg h" using int_to_float_nonneg[OF assms(1) _ h] by simp
  from float_mul_nonneg[OF assms(1) hn qn]
  have "float_nonneg (float_mul rd h q)" using x by auto
  from float_mul_nonneg[OF assms(1) this float_pos_nonneg[OF assms(4)]]
  show ?thesis using x[symmetric] by auto
qed

lemma scaled_height_nonpos:
  assumes "rnd_keeps_sign rd" "0 < orig_w" "0 \<le> width" "float_nonpos y"
    and "scaled_height rd orig_h width orig_w y = Inr (Finite r)"
  shows "r \<le> 0"
proof -
  from assms(5) obtain q h where q: "int_truediv rd width (int orig_w) = Inr q"
    and h: "int_to_float rd (int orig_h) = Inr h"
    and x: "Finite r = float_mul rd (float_mul rd h q) y"
    by (rule scaled_height_cases)
  have qn: "float_nonneg q" using int_truediv_nonneg[OF assms(1) assms(3) _ q] assms(2) by simp
  have hn: "float_nonneg h" using int_to_float_nonneg[OF assms(1) _ h] by simp
  from float_mul_nonneg[OF assms(1) hn qn]
  have "float_nonneg (float_mul rd h q)" using x by auto
  from float_mul_nonneg_nonpos[OF assms(1) this assms(4)]
  show ?thesis using x[symmetric] by auto
qed

lemma new_height_finite:
  assumes "scaled_height rd orig_h width orig_w y = Inr (Finite r)"
  shows "new_height rd orig_h width orig_w y = Inr (max 1 (if 0 \<le> r then \<lfloor>r\<rfloor> else \<lceil>r\<rceil>))"
  using assms by (simp add: new_height_def py_int_def)

lemma pow2_pos: "0 < pow2 k"
  by (simp add: pow2_def)

lemma round_half_even_nonneg: "0 \<le> s \<Longrightarrow> 0 \<le> round_half_even s"
  by (simp add: round_half_even_def Let_def)

lemma rounded_magnitude_nonneg:
  "0 \<le> rat_of_int (round_half_even (\<bar>q\<bar> / pow2 t)) * pow2 t"
proof -
  have "0 \<le> \<bar>q\<bar> / pow2 t" using pow2_pos[of t] by simp
  then have "0 \<le> round_half_even (\<bar>q\<bar> / pow2 t)" by (rule round_half_even_nonneg)
  then show ?thesis using pow2_pos[of t] by simp
qed

lemma round_double_nonneg:
  assumes "0 \<le> q"
  shows "float_nonneg (round_double q)"
proof (cases "q = 0")
  case True
  then show ?thesis by (simp add: round_double_def)
next
  case False
  then have "0 < q" using assms by simp
  then show ?thesis
    unfolding round_double_def Let_def
    using rounded_magnitude_nonneg[of q "max (ilog2 \<bar>q\<bar>) (- 1022) - 52"]
    by (simp del: of_int_mult)
qed

lemma round_double_nonpos:
  assumes "q \<le> 0"
  shows "float_nonpos (round_double q)"
proof (cases "q = 0")
  case True
  then show ?thesis by (simp add: round_double_def)
next
  case False
  then have "q < 0" using assms by simp
  then have "\<not> 0 < q" by simp
  then show ?thesis
    unfolding round_double_def Let_def
    using rounded_magnitude_nonneg[of q "max (ilog2 \<bar>q\<bar>) (- 1022) - 52"] False
    by (simp del: of_int_mult)
qed

lemma round_double_keeps_sign: "rnd_keeps_sign round_double"
  by (simp add: rnd_keeps_sign_def round_double_nonneg round_double_nonpos)

text \<open>The row assembly of line 99 on a full grid of characters.\<close>

lemma range_up_multiples:
  assumes "0 < W" "k \<le> h"
  shows "range_up (int k * W) (int h * W) W = map (\<lambda>j. int j * W) [k..<h]"
  using assms
proof (induction "h - k" arbitrary: k)
  case 0
  then have "k = h" by simp
  then show ?case by simp
next
  case (Suc d)
  then have lt: "k < h" by simp
  then have "int k * W < int h * W" using Suc.prems(1) by simp
  moreover have "int k * W + W = int (Suc k) * W" by (simp add: algebra_simps)
  moreover have "range_up (int (Suc k) * W) (int h * W) W = map (\<lambda>j. int j * W) [Suc k..<h]"
    using Suc.hyps(1)[of "Suc k"] Suc.hyps(2) Suc.prems lt by simp
  ultimately show ?case using Suc.prems(1) lt
    by (subst range_up.simps) (simp add: upt_conv_Cons del: range_up.simps)
qed

lemma py_slice_inner:
  assumes "0 \<le> i" "0 \<le> w" "i + w \<le> int (length xs)"
  shows "py_slice xs i (i + w) = take (nat w) (drop (nat i) xs)"
  using assms by (simp add: py_slice_def Let_def min_def)

lemma py_slice_chunk:
  assumes "0 < W" "j < h" "length cs = h * nat W"
  shows "py_slice cs (int j * W) (int j * W + W) = take (nat W) (drop (j * nat W) cs)"
proof -
  have a: "int j * W + W \<le> int (length cs)"
  proof -
    have "int j * W + W = int (Suc j) * W" by (simp add: algebra_simps)
    also have "\<dots> \<le> int h * W" using assms(1,2) by (intro mult_right_mono) auto
    also have "\<dots> = int (length cs)" using assms(1,3) by simp
    finally show ?thesis .
  qed
  have b: "0 \<le> int j * W" using assms(1) by simp
  have c: "nat (int j * W) = j * nat W" using assms(1) by (simp add: nat_mult_distrib)
  show ?thesis using py_slice_inner[OF b _ a] assms(1) c by simp
qed

lemma length_chunk:
  assumes "0 < W" "j < h" "length cs = h * nat W"
  shows "length (take (nat W) (drop (j * nat W) cs)) = nat W"
proof -
  have "Suc j * nat W \<le> h * nat W" using assms(2) by (intro mult_le_mono1) simp
  then show ?thesis using assms(3) by simp
qed

lemma lines_are_rows:
  assumes "0 < W" "length cs = h * nat W"
  shows "py_range 0 (int (length cs)) W = Inr (map (\<lambda>j. int j * W) [0..<h])"
    and "map (\<lambda>i. py_slice cs i (i + W)) (map (\<lambda>j. int j * W) [0..<h]) = rows_of cs W h"
proof -
  have "int (length cs) = int h * W" using assms by simp
  then show "py_range 0 (int (length cs)) W = Inr (map (\<lambda>j. int j * W) [0..<h])"
    using range_up_multiples[OF assms(1), of 0 h] assms(1) by (simp add: py_range_def)
  show "map (\<lambda>i. py_slice cs i (i + W)) (map (\<lambda>j. int j * W) [0..<h]) = rows_of cs W h"
    using py_slice_chunk[OF assms(1) _ assms(2)] by (simp add: rows_of_def)
qed

lemma rows_of_shape:
  assumes "0 < W" "length cs = h * nat W"
  shows "length (rows_of cs W h) = h" "\<forall>r \<in> set (rows_of cs W h). length r = nat W"
    "\<forall>r \<in> set (rows_of cs W h). set r \<subseteq> set cs"
proof -
  show "length (rows_of cs W h) = h" by (simp add: rows_of_def)
  show "\<forall>r \<in> set (rows_of cs W h). length r = nat W"
    using length_chunk[OF assms(1) _ assms(2)] by (auto simp: rows_of_def)
  show "\<forall>r \<in> set (rows_of cs W h). set r \<subseteq> set cs"
    by (auto simp: rows_of_def dest!: in_set_takeD in_set_dropD)
qed

lemma split_on_no_sep: "c \<notin> set r \<Longrightarrow> split_on c r = [r]"
  by (induction r) auto

lemma split_on_append: "c \<notin> set r \<Longrightarrow> split_on c (r @ c # s) = r # split_on c s"
  by (induction r) auto

lemma split_on_join:
  assumes "rows \<noteq> []" "\<forall>r \<in> set rows. c \<notin> set r"
  shows "split_on c (str_join [c] rows) = rows"
  using assms
proof (induction "[c]" rows rule: str_join.induct)
  case 1
  then show ?case by simp
next
  case (2 x)
  then show ?case by (simp add: split_on_no_sep)
next
  case (3 x y ys)
  then show ?case by (simp add: split_on_append)
qed

lemma last_join:
  assumes "rows \<noteq> []" "last rows \<noteq> []"
  shows "str_join sep rows \<noteq> [] \<and> last (str_join sep rows) = last (last rows)"
  using assms by (induction sep rows rule: str_join.induct) auto

text \<open>The function on a valid file, gradient and image; the text of a full grid.\<close>

lemma new_height_ge1:
  assumes "new_height rd orig_h width orig_w y = Inr h"
  shows "1 \<le> h"
  using assms unfolding new_height_def bind_res_def
  by (auto split: sum.splits)

lemma render_rows:
  assumes "0 < W" "1 \<le> length g" "\<forall>p \<in> set (getdata img). 0 \<le> p \<and> p \<le> 255"
    and "length (getdata img) = h * nat W"
  shows "render g W img =
           Inr (str_join [CHR 0x0A]
                 (rows_of (map (\<lambda>p. g ! nat (gradient_index p (length g))) (getdata img)) W h))"
proof -
  let ?cs = "map (\<lambda>p. g ! nat (gradient_index p (length g))) (getdata img)"
  have len: "length ?cs = h * nat W" using assms(4) by simp
  have m: "map_res (pixel_char g) (getdata img) = Inr ?cs"
    by (rule map_res_pixel_char[OF assms(3,2)])
  have r: "py_range 0 (int (length ?cs)) W = Inr (map (\<lambda>j. int j * W) [0..<h])"
    by (rule lines_are_rows(1)[OF assms(1) len])
  have l: "map (\<lambda>i. py_slice ?cs i (i + W)) (map (\<lambda>j. int j * W) [0..<h]) = rows_of ?cs W h"
    by (rule lines_are_rows(2)[OF assms(1) len])
  show ?thesis
    unfolding render_def Let_def m bind_res_simps r l ..
qed

lemma chars_in_gradient:
  assumes "1 \<le> length g" "\<forall>p \<in> set ps. 0 \<le> p \<and> p \<le> 255"
  shows "set (map (\<lambda>p. g ! nat (gradient_index p (length g))) ps) \<subseteq> set g"
proof -
  have "g ! nat (gradient_index p (length g)) \<in> set g" if "p \<in> set ps" for p
  proof -
    have "0 \<le> p" "p \<le> 255" using assms(2) that by auto
    from gradient_index_bounds[OF this assms(1)]
    have "nat (gradient_index p (length g)) < length g" by simp
    then show ?thesis by simp
  qed
  then show ?thesis by auto
qed

lemma image_to_ascii_valid:
  assumes "isfile e image_path"
    and "G = (case gradient of Some g \<Rightarrow> g | None \<Rightarrow> DEFAULT_GRADIENT)"
    and "2 \<le> length G"
    and "Image_open e image_path = Inr raw"
    and "convert_L e raw = Inr img"
    and "size_img img = (orig_w, orig_h)" "0 < orig_w" "0 < orig_h"
  shows "image_to_ascii e image_path width y_scale invert gradient =
           bind_res (new_height (rnd e) orig_h width orig_w y_scale) (\<lambda>new_h.
           bind_res (resize e img (width, new_h))
             (render (if invert then rev G else G) width))"
  using assms by (simp add: image_to_ascii_def Let_def)

text \<open>The example world, field by field.\<close>

lemma uniform_env_sel:
  "isfile (uniform_env w h v) ''gray.png''"
  "Image_open (uniform_env w h v) ''gray.png''
     = Inr \<lparr>size_img = (w, h), getdata = replicate (w * h) v\<rparr>"
  "convert_L (uniform_env w h v) i = Inr i"
  "resize (uniform_env w h v) = fill_resize"
  "rnd (uniform_env w h v) = round_double"
  by (simp_all add: uniform_env_def)

text \<open>The formulas of the specification against the code.\<close>

lemma spec_char_index: "spec_char g p = g ! nat (gradient_index p (length g))"
  by (simp add: spec_char_def gradient_index_floor)

lemma rows_of_nth:
  assumes "i < h" "j < nat W" "length cs = h * nat W"
  shows "rows_of cs W h ! i ! j = cs ! (i * nat W + j)"
proof -
  have "Suc i * nat W \<le> h * nat W" using assms(1) by (intro mult_le_mono1) simp
  then have "i * nat W + j < length cs" using assms(2,3) by simp
  then show ?thesis using assms(1,2) by (simp add: rows_of_def)
qed

lemma scaled_height_chain:
  assumes "0 < orig_w"
    and "rd (rat_of_int width / rat_of_nat orig_w) = Finite q"
    and "rd (rat_of_nat orig_h) = Finite h"
  shows "scaled_height rd orig_h width orig_w y
           = Inr (float_mul rd (float_mul rd (Finite h) (Finite q)) y)"
  using assms by (simp add: scaled_height_def int_truediv_def int_to_float_def)

subsection \<open>Quantisation\<close>

text \<open>
  C1. For a valid file, gradient and image and a resized image of \<open>new_h * W\<close> pixels in
  \<open>[0, 255]\<close>, the text returned by \<^verbatim>\<open>image_to_ascii\<close> is the rows of the characters
  \<open>gradient[floor(p * (n - 1) / 255)]\<close> of the resized pixels \<open>p\<close>, in their order, where
  \<open>gradient\<close> is the effective gradient (the default when none is given, reversed when
  \<open>invert\<close> is set) and \<open>n \<ge> 2\<close> its length: the character in row \<open>i\<close>, column \<open>j\<close> is the
  one of pixel \<open>i * W + j\<close>. With the default gradient and no inversion, intensity 0
  gives \<open>@\<close>, 255 gives the space and 128 gives index 4, which is \<open>+\<close>, in the element
  expression of line 96 and in the text returned for a one-pixel image.
\<close>

theorem pixel_char_quantization:
  assumes "isfile e image_path"
    and "G = (case gradient of Some g \<Rightarrow> g | None \<Rightarrow> DEFAULT_GRADIENT)"
    and "2 \<le> length G"
    and "Image_open e image_path = Inr raw"
    and "convert_L e raw = Inr img"
    and "size_img img = (orig_w, orig_h)" "0 < orig_w" "0 < orig_h"
    and "0 < W"
    and "new_height (rnd e) orig_h W orig_w y_scale = Inr new_h"
    and "resize e img (W, new_h) = Inr resized"
    and "length (getdata resized) = nat new_h * nat W"
    and "\<forall>p \<in> set (getdata resized). 0 \<le> p \<and> p \<le> 255"
    and "g = (if invert then rev G else G)"
  shows "image_to_ascii e image_path W y_scale invert gradient
           = Inr (str_join [CHR 0x0A]
                   (rows_of (map (spec_char g) (getdata resized)) W (nat new_h)))
         \<and> (\<forall>i < nat new_h. \<forall>j < nat W.
               rows_of (map (spec_char g) (getdata resized)) W (nat new_h) ! i ! j
                 = spec_char g (getdata resized ! (i * nat W + j)))
         \<and> (\<forall>p. 0 \<le> p \<and> p \<le> 255 \<longrightarrow> pixel_char g p = Inr (spec_char g p))
         \<and> pixel_char DEFAULT_GRADIENT 0 = Inr (CHR ''@'')
         \<and> pixel_char DEFAULT_GRADIENT 255 = Inr (CHR '' '')
         \<and> gradient_index 128 (length DEFAULT_GRADIENT) = 4
         \<and> pixel_char DEFAULT_GRADIENT 128 = Inr (CHR ''+'')
         \<and> image_to_ascii (uniform_env 1 1 0) ''gray.png'' 1 (Finite 1) False None = Inr ''@''
         \<and> image_to_ascii (uniform_env 1 1 255) ''gray.png'' 1 (Finite 1) False None = Inr '' ''
         \<and> image_to_ascii (uniform_env 1 1 128) ''gray.png'' 1 (Finite 1) False None = Inr ''+''"
proof -
  let ?cs = "map (spec_char g) (getdata resized)"
  have g1: "1 \<le> length g" using assms(3,14) by simp
  have fn: "spec_char g = (\<lambda>p. g ! nat (gradient_index p (length g)))"
    by (rule ext) (rule spec_char_index)
  have "image_to_ascii e image_path W y_scale invert gradient = render g W resized"
    unfolding image_to_ascii_valid[OF assms(1-8)] assms(10) bind_res_simps assms(11) assms(14) ..
  also have "\<dots> = Inr (str_join [CHR 0x0A] (rows_of ?cs W (nat new_h)))"
    unfolding fn by (rule render_rows[OF assms(9) g1 assms(13) assms(12)])
  finally have res: "image_to_ascii e image_path W y_scale invert gradient
                       = Inr (str_join [CHR 0x0A] (rows_of ?cs W (nat new_h)))" .
  have len: "length ?cs = nat new_h * nat W" using assms(12) by simp
  have pos: "\<forall>i < nat new_h. \<forall>j < nat W.
               rows_of ?cs W (nat new_h) ! i ! j = spec_char g (getdata resized ! (i * nat W + j))"
  proof (intro allI impI)
    fix i j assume i: "i < nat new_h" and j: "j < nat W"
    have "Suc i * nat W \<le> nat new_h * nat W" using i by (intro mult_le_mono1) simp
    then have "i * nat W + j < length (getdata resized)" using j assms(12) by simp
    then show "rows_of ?cs W (nat new_h) ! i ! j = spec_char g (getdata resized ! (i * nat W + j))"
      using rows_of_nth[OF i j len] by simp
  qed
  have el: "\<forall>p. 0 \<le> p \<and> p \<le> 255 \<longrightarrow> pixel_char g p = Inr (spec_char g p)"
    using pixel_char_ok[OF _ _ g1] by (simp add: spec_char_index)
  have d: "pixel_char DEFAULT_GRADIENT 0 = Inr (CHR ''@'')"
    "pixel_char DEFAULT_GRADIENT 255 = Inr (CHR '' '')"
    "gradient_index 128 (length DEFAULT_GRADIENT) = 4"
    "pixel_char DEFAULT_GRADIENT 128 = Inr (CHR ''+'')"
    by (simp_all add: pixel_char_def str_getitem_def gradient_index_def DEFAULT_GRADIENT_def)
  have f0: "image_to_ascii (uniform_env 1 1 0) ''gray.png'' 1 (Finite 1) False None = Inr ''@''"
    by code_simp
  have f255: "image_to_ascii (uniform_env 1 1 255) ''gray.png'' 1 (Finite 1) False None = Inr '' ''"
    by code_simp
  have f128: "image_to_ascii (uniform_env 1 1 128) ''gray.png'' 1 (Finite 1) False None = Inr ''+''"
    by code_simp
  show ?thesis
    by (intro conjI) (rule res pos el d f0 f255 f128)+
qed

theorem pixel_char_quantization_witness:
  "isfile (uniform_env 2 2 255) ''gray.png'' \<and> 2 \<le> length ''abc''
   \<and> new_height (rnd (uniform_env 2 2 255)) 2 2 2 (Finite 1) = Inr 2
   \<and> image_to_ascii (uniform_env 2 2 255) ''gray.png'' 2 (Finite 1) True (Some ''abc'')
       = Inr [CHR ''a'', CHR ''a'', CHR 0x0A, CHR ''a'', CHR ''a'']
   \<and> rows_of (map (spec_char ''cba'') [255, 255, 255, 255]) 2 2 ! 1 ! 0 = spec_char ''cba'' 255
   \<and> pixel_char ''cba'' 255 = Inr (CHR ''a'')"
proof -
  let ?e = "uniform_env 2 2 255"
  let ?img = "\<lparr>size_img = (2, 2), getdata = replicate (2 * 2) (255::int)\<rparr>"
  let ?out = "\<lparr>size_img = (nat 2, nat 2), getdata = replicate (nat 2 * nat 2) (255::int)\<rparr>"
  have a1: "isfile ?e ''gray.png''" by (rule uniform_env_sel)
  have a2: "''abc'' = (case Some ''abc'' of Some g \<Rightarrow> g | None \<Rightarrow> DEFAULT_GRADIENT)" by simp
  have a3: "2 \<le> length ''abc''" by simp
  have a4: "Image_open ?e ''gray.png'' = Inr ?img" by (rule uniform_env_sel)
  have a5: "convert_L ?e ?img = Inr ?img" by (rule uniform_env_sel)
  have a6: "size_img ?img = (2, 2)" by simp
  have a7: "0 < (2::nat)" by simp
  have a9: "0 < (2::int)" by simp
  have a10: "new_height (rnd ?e) 2 2 2 (Finite 1) = Inr 2" by code_simp
  have a11: "resize ?e ?img (2, 2) = Inr ?out"
    by (simp add: uniform_env_sel fill_resize_def eval_nat_numeral)
  have a12: "length (getdata ?out) = nat 2 * nat 2" by simp
  have a13: "\<forall>p \<in> set (getdata ?out). 0 \<le> p \<and> p \<le> 255" by simp
  have a14: "''cba'' = (if True then rev ''abc'' else ''abc'')" by simp
  note t = pixel_char_quantization[OF a1 a2 a3 a4 a5 a6 a7 a7 a9 a10 a11 a12 a13 a14]
  have d: "getdata ?out = [255, 255, 255, 255]" by (simp add: eval_nat_numeral)
  have ev: "str_join [CHR 0x0A] (rows_of (map (spec_char ''cba'') [255, 255, 255, 255]) 2 (nat 2))
              = [CHR ''a'', CHR ''a'', CHR 0x0A, CHR ''a'', CHR ''a'']"
    by code_simp
  have sc: "spec_char ''cba'' 255 = CHR ''a''" by code_simp
  from t have "image_to_ascii ?e ''gray.png'' 2 (Finite 1) True (Some ''abc'')
                 = Inr [CHR ''a'', CHR ''a'', CHR 0x0A, CHR ''a'', CHR ''a'']"
    unfolding d ev by (rule conjunct1)
  moreover from t have "rows_of (map (spec_char ''cba'') [255, 255, 255, 255]) 2 2 ! 1 ! 0
                          = spec_char ''cba'' 255"
    unfolding d by simp
  moreover from t have "pixel_char ''cba'' 255 = Inr (CHR ''a'')"
    using sc by simp
  ultimately show ?thesis using a1 a3 a10 by simp
qed

text \<open>
  C9. For \<open>p\<close> in \<open>[0, 255]\<close> and a gradient of length \<open>n \<ge> 2\<close> the index
  \<open>p * (n - 1) // 255\<close> lies in \<open>[0, n - 1]\<close>, so the lookup raises no IndexError; hence the
  comprehension over any sequence of such pixels yields one character per pixel.
\<close>

theorem gradient_lookup_in_bounds:
  assumes "0 \<le> p" "p \<le> 255" "2 \<le> length gradient"
  shows "0 \<le> p * (int (length gradient) - 1) div 255
         \<and> p * (int (length gradient) - 1) div 255 \<le> int (length gradient) - 1
         \<and> (\<exists>c. str_getitem gradient (p * (int (length gradient) - 1) div 255) = Inr c)
         \<and> (\<forall>ps. (\<forall>q \<in> set ps. 0 \<le> q \<and> q \<le> 255) \<longrightarrow>
               (\<exists>cs. map_res (pixel_char gradient) ps = Inr cs \<and> length cs = length ps))"
proof -
  have n: "1 \<le> length gradient" using assms(3) by simp
  note b = gradient_index_bounds[OF assms(1,2) n]
  have "\<exists>c. str_getitem gradient (gradient_index p (length gradient)) = Inr c"
    using pixel_char_ok[OF assms(1,2) n] by (simp add: pixel_char_def)
  moreover have "\<forall>ps. (\<forall>q \<in> set ps. 0 \<le> q \<and> q \<le> 255) \<longrightarrow>
      (\<exists>cs. map_res (pixel_char gradient) ps = Inr cs \<and> length cs = length ps)"
    using map_res_pixel_char[OF _ n] by simp
  ultimately show ?thesis using b by (simp add: gradient_index_def)
qed

theorem gradient_lookup_in_bounds_witness:
  "(0::int) \<le> 255 \<and> (255::int) \<le> 255 \<and> 2 \<le> length ''ab''
   \<and> str_getitem ''ab'' (255 * (int (length ''ab'') - 1) div 255) = Inr (CHR ''b'')
   \<and> (\<exists>cs. map_res (pixel_char ''ab'') [0, 127, 255] = Inr cs \<and> length cs = 3)"
proof -
  have r: "\<forall>q \<in> set [0, 127, 255::int]. 0 \<le> q \<and> q \<le> 255" by simp
  have "(0::int) \<le> 255" "(255::int) \<le> 255" "2 \<le> length ''ab''" by simp_all
  from gradient_lookup_in_bounds[OF this]
  have "\<exists>cs. map_res (pixel_char ''ab'') [0, 127, 255] = Inr cs
           \<and> length cs = length [0, 127, 255::int]"
    using r by blast
  then show ?thesis by (simp add: str_getitem_def numeral_3_eq_3)
qed

subsection \<open>The order of the checks\<close>

text \<open>
  C10. When the path does not name an existing file the function raises
  FileNotFoundError before it looks at the gradient: whatever the gradient, also one
  shorter than two characters, the error is the missing file and not the ValueError of
  the gradient check.
\<close>

theorem missing_file_reported_first:
  assumes "\<not> isfile e image_path"
  shows "image_to_ascii e image_path width y_scale invert gradient
           = Inl (FileNotFoundError (''Input image not found: '' @ image_path))
         \<and> image_to_ascii e image_path width y_scale invert gradient
           \<noteq> Inl (ValueError ''Gradient must contain at least 2 characters.'')"
  using assms by (simp add: image_to_ascii_def)

theorem missing_file_reported_first_witness:
  "\<not> isfile (uniform_env 1 1 0) ''nope.png''
   \<and> image_to_ascii (uniform_env 1 1 0) ''nope.png'' 100 (Finite (1 / 2)) False (Some ''x'')
       = Inl (FileNotFoundError ''Input image not found: nope.png'')"
  using missing_file_reported_first[of "uniform_env 1 1 0" "''nope.png''" 100
      "Finite (1 / 2)" False "Some ''x''"]
  by (simp add: uniform_env_def)

text \<open>
  C5. For an existing image file, whatever it holds and whatever the other parameters are,
  a gradient shorter than two characters (the empty string, a single character) makes the
  function raise the ValueError of the gradient check, the module's invalid-parameter
  error; the image is not even opened.
\<close>

theorem short_gradient_rejected:
  assumes "isfile e image_path" "length g < 2"
  shows "image_to_ascii e image_path width y_scale invert (Some g)
           = Inl (ValueError ''Gradient must contain at least 2 characters.'')"
  using assms by (simp add: image_to_ascii_def)

theorem short_gradient_rejected_witness:
  "isfile (uniform_env 2 2 128) ''gray.png'' \<and> length ''x'' < 2
   \<and> image_to_ascii (uniform_env 2 2 128) ''gray.png'' 100 (Finite (1 / 2)) True (Some ''x'')
       = Inl (ValueError ''Gradient must contain at least 2 characters.'')"
  using short_gradient_rejected[of "uniform_env 2 2 128" "''gray.png''" "''x''" 100
      "Finite (1 / 2)" True]
  by (simp add: uniform_env_def)

text \<open>
  C6. When the file exists and the image opens and converts, a source image of width 0 or
  of height 0 never yields a text: the function raises. With a valid gradient the
  exception is the ValueError of the dimension check, the module's invalid-image error
  (with a gradient shorter than two characters the gradient check has raised before).
\<close>

theorem zero_dimension_rejected:
  assumes "isfile e image_path"
    and "Image_open e image_path = Inr raw"
    and "convert_L e raw = Inr img"
    and "fst (size_img img) = 0 \<or> snd (size_img img) = 0"
  shows "(\<exists>err. image_to_ascii e image_path width y_scale invert gradient = Inl err)
         \<and> (2 \<le> length (case gradient of Some g \<Rightarrow> g | None \<Rightarrow> DEFAULT_GRADIENT) \<longrightarrow>
              image_to_ascii e image_path width y_scale invert gradient
                = Inl (ValueError ''Image has invalid dimensions (0).''))"
  using assms by (auto simp add: image_to_ascii_def Let_def split: prod.splits)

theorem zero_dimension_rejected_witness:
  "isfile (uniform_env 0 3 0) ''gray.png''
   \<and> Image_open (uniform_env 0 3 0) ''gray.png'' = Inr \<lparr>size_img = (0, 3), getdata = []\<rparr>
   \<and> convert_L (uniform_env 0 3 0) \<lparr>size_img = (0, 3), getdata = []\<rparr>
       = Inr \<lparr>size_img = (0, 3), getdata = []\<rparr>
   \<and> 2 \<le> length (case None of Some g \<Rightarrow> g | None \<Rightarrow> DEFAULT_GRADIENT)
   \<and> image_to_ascii (uniform_env 0 3 0) ''gray.png'' 100 (Finite (1 / 2)) False None
       = Inl (ValueError ''Image has invalid dimensions (0).'')"
  using zero_dimension_rejected[of "uniform_env 0 3 0" "''gray.png''"
      "\<lparr>size_img = (0, 3), getdata = []\<rparr>" "\<lparr>size_img = (0, 3), getdata = []\<rparr>"
      100 "Finite (1 / 2)" False None]
  by (simp add: uniform_env_def DEFAULT_GRADIENT_def)

subsection \<open>Inversion\<close>

text \<open>
  C3. For the same environment, path, width and y-scale, the call with \<open>invert = True\<close> and
  gradient \<open>G\<close> returns what the call with \<open>invert = False\<close> and the reversed gradient
  returns: the same text, or the same exception.
\<close>

theorem invert_is_reversed_gradient:
  "image_to_ascii e image_path width y_scale True (Some G)
     = image_to_ascii e image_path width y_scale False (Some (rev G))"
  by (simp add: image_to_ascii_def Let_def)

subsection \<open>The output height\<close>

text \<open>
  C4, as the code has it. For an image of positive width and height, a positive
  \<^verbatim>\<open>width\<close> and a finite positive \<^verbatim>\<open>y_scale\<close>, line 88 computes the product in doubles:
  the quotient \<^verbatim>\<open>width / orig_w\<close>, the conversion of \<^verbatim>\<open>orig_h\<close> and the two
  multiplications are each rounded to the nearest double. Whenever these four results
  are finite, the last being \<open>r\<close>, the height is \<open>max(1, floor(r))\<close>, it is at least 1, and
  it is the height passed to \<^verbatim>\<open>resize\<close>.
\<close>

theorem new_height_is_max_floor:
  assumes "isfile e image_path"
    and "G = (case gradient of Some g \<Rightarrow> g | None \<Rightarrow> DEFAULT_GRADIENT)"
    and "2 \<le> length G"
    and "Image_open e image_path = Inr raw"
    and "convert_L e raw = Inr img"
    and "size_img img = (orig_w, orig_h)" "0 < orig_w" "0 < orig_h"
    and "0 < width" "0 < ys"
    and "rnd e = round_double"
    and "round_double (rat_of_int width / rat_of_nat orig_w) = Finite q"
    and "round_double (rat_of_nat orig_h) = Finite h"
    and "round_double (h * q) = Finite m"
    and "round_double (m * ys) = Finite r"
  shows "new_height (rnd e) orig_h width orig_w (Finite ys) = Inr (max 1 \<lfloor>r\<rfloor>)
         \<and> 1 \<le> max 1 \<lfloor>r\<rfloor>
         \<and> image_to_ascii e image_path width (Finite ys) invert gradient
             = bind_res (resize e img (width, max 1 \<lfloor>r\<rfloor>))
                 (render (if invert then rev G else G) width)"
proof -
  have sc: "scaled_height (rnd e) orig_h width orig_w (Finite ys) = Inr (Finite r)"
    unfolding assms(11) scaled_height_chain[OF assms(7) assms(12) assms(13)]
    by (simp add: assms(14) assms(15))
  have ks: "rnd_keeps_sign (rnd e)" unfolding assms(11) by (rule round_double_keeps_sign)
  have "0 \<le> width" using assms(9) by simp
  moreover have "float_pos (Finite ys)" using assms(10) by simp
  ultimately have r: "0 \<le> r" using scaled_height_nonneg[OF ks assms(7) _ _ sc] by simp
  have nh: "new_height (rnd e) orig_h width orig_w (Finite ys) = Inr (max 1 \<lfloor>r\<rfloor>)"
    using new_height_finite[OF sc] r by simp
  have "image_to_ascii e image_path width (Finite ys) invert gradient
          = bind_res (resize e img (width, max 1 \<lfloor>r\<rfloor>))
              (render (if invert then rev G else G) width)"
    unfolding image_to_ascii_valid[OF assms(1-8)] nh bind_res_simps ..
  then show ?thesis using nh by simp
qed

theorem new_height_is_max_floor_witness:
  "isfile (uniform_env 29 145 0) ''gray.png''
   \<and> rnd (uniform_env 29 145 0) = round_double
   \<and> round_double (rat_of_int 100 / rat_of_nat 29)
       = Finite (3882413471871117 / 1125899906842624)
   \<and> round_double (rat_of_nat 145) = Finite 145
   \<and> round_double (145 * (3882413471871117 / 1125899906842624))
       = Finite (8796093022207999 / 17592186044416)
   \<and> round_double (8796093022207999 / 17592186044416 * (1 / 2))
       = Finite (8796093022207999 / 35184372088832)
   \<and> new_height (rnd (uniform_env 29 145 0)) 145 100 29 (Finite (1 / 2)) = Inr 249"
proof -
  let ?e = "uniform_env 29 145 0"
  let ?img = "\<lparr>size_img = (29, 145), getdata = replicate (29 * 145) (0::int)\<rparr>"
  have a1: "isfile ?e ''gray.png''" by (rule uniform_env_sel)
  have a2: "DEFAULT_GRADIENT = (case None of Some g \<Rightarrow> g | None \<Rightarrow> DEFAULT_GRADIENT)" by simp
  have a3: "2 \<le> length DEFAULT_GRADIENT" by (simp add: DEFAULT_GRADIENT_def)
  have a4: "Image_open ?e ''gray.png'' = Inr ?img" by (rule uniform_env_sel)
  have a5: "convert_L ?e ?img = Inr ?img" by (rule uniform_env_sel)
  have a6: "size_img ?img = (29, 145)" by simp
  have a7: "0 < (29::nat)" by simp
  have a8: "0 < (145::nat)" by simp
  have a9: "0 < (100::int)" by simp
  have a10: "0 < (1 / 2 :: rat)" by simp
  have a11: "rnd ?e = round_double" by (rule uniform_env_sel)
  have a12: "round_double (rat_of_int 100 / rat_of_nat 29)
               = Finite (3882413471871117 / 1125899906842624)" by code_simp
  have a13: "round_double (rat_of_nat 145) = Finite 145" by code_simp
  have a14: "round_double (145 * (3882413471871117 / 1125899906842624))
               = Finite (8796093022207999 / 17592186044416)" by code_simp
  have a15: "round_double (8796093022207999 / 17592186044416 * (1 / 2))
               = Finite (8796093022207999 / 35184372088832)" by code_simp
  have fl: "\<lfloor>(8796093022207999::rat) / 35184372088832\<rfloor> = 249" by (simp add: floor_eq_iff)
  from new_height_is_max_floor[OF a1 a2 a3 a4 a5 a6 a7 a8 a9 a10 a11 a12 a13 a14 a15, of False]
  have "new_height (rnd ?e) 145 100 29 (Finite (1 / 2)) = Inr 249"
    using fl by simp
  then show ?thesis using a1 a11 a12 a13 a14 a15 by simp
qed

text \<open>
  C4 as stated fails in two ways. With the exact product of the specification a 29 by
  145 image at width 100 and \<^verbatim>\<open>y_scale = 0.5\<close> has height 250, and a 49 by 98 image at
  width 1 and \<^verbatim>\<open>y_scale = 1.0\<close> has height 2; the doubles of the code give
  \<open>249.99999999999997\<close> and \<open>1.9999999999999998\<close>, hence heights 249 and 1 (the second
  image comes out as the single row \<^verbatim>\<open>@\<close>). And \<^verbatim>\<open>y_scale = float("inf")\<close> is a
  positive float for which the product is infinite and \<^verbatim>\<open>int\<close> raises OverflowError.
\<close>

theorem spec_height_formula_fails:
  "new_height (rnd (uniform_env 29 145 0)) 145 100 29 (Finite (1 / 2)) = Inr 249
   \<and> spec_new_height 145 100 29 (1 / 2) = 250
   \<and> image_to_ascii (uniform_env 49 98 0) ''gray.png'' 1 (Finite 1) False None = Inr ''@''
   \<and> spec_new_height 98 1 49 1 = 2
   \<and> float_pos PosInf
   \<and> new_height (rnd (uniform_env 1 1 255)) 1 1 1 PosInf
       = Inl (OverflowError ''cannot convert float infinity to integer'')
   \<and> image_to_ascii (uniform_env 1 1 255) ''gray.png'' 1 PosInf False None
       = Inl (OverflowError ''cannot convert float infinity to integer'')"
  by code_simp

text \<open>
  C7, as the code has it. The function never tests \<^verbatim>\<open>y_scale\<close>. With a valid file,
  gradient and image and a positive \<^verbatim>\<open>width\<close>, a \<^verbatim>\<open>y_scale\<close> that is zero or negative,
  with a finite product on line 88, gives a product that is not positive: \<open>max\<close> lifts
  the height to 1 and, when Pillow returns the \<^verbatim>\<open>width\<close> pixels of that one row, the
  function returns a row of \<^verbatim>\<open>width\<close> characters instead of raising.
\<close>

theorem nonpositive_y_scale_gives_one_row:
  assumes "isfile e image_path"
    and "G = (case gradient of Some g \<Rightarrow> g | None \<Rightarrow> DEFAULT_GRADIENT)"
    and "2 \<le> length G"
    and "Image_open e image_path = Inr raw"
    and "convert_L e raw = Inr img"
    and "size_img img = (orig_w, orig_h)" "0 < orig_w" "0 < orig_h"
    and "0 < width" "float_nonpos y_scale"
    and "rnd_keeps_sign (rnd e)"
    and "scaled_height (rnd e) orig_h width orig_w y_scale = Inr (Finite r)"
    and "resize e img (width, 1) = Inr resized"
    and "length (getdata resized) = nat width"
    and "\<forall>p \<in> set (getdata resized). 0 \<le> p \<and> p \<le> 255"
  shows "new_height (rnd e) orig_h width orig_w y_scale = Inr 1
         \<and> (\<exists>row. image_to_ascii e image_path width y_scale invert gradient = Inr row
                   \<and> length row = nat width)"
proof -
  let ?g = "if invert then rev G else G"
  let ?cs = "map (\<lambda>p. ?g ! nat (gradient_index p (length ?g))) (getdata resized)"
  have "0 \<le> width" using assms(9) by simp
  from scaled_height_nonpos[OF assms(11) assms(7) this assms(10) assms(12)]
  have r: "r \<le> 0" .
  have "(if 0 \<le> r then \<lfloor>r\<rfloor> else \<lceil>r\<rceil>) \<le> 0"
    using r by (auto simp: ceiling_le_iff floor_le_iff)
  then have nh: "new_height (rnd e) orig_h width orig_w y_scale = Inr 1"
    using new_height_finite[OF assms(12)] by (simp add: max_def)
  have g1: "1 \<le> length ?g" using assms(3) by simp
  have len: "length (getdata resized) = 1 * nat width" using assms(14) by simp
  have "image_to_ascii e image_path width y_scale invert gradient = render ?g width resized"
    unfolding image_to_ascii_valid[OF assms(1-8)] nh bind_res_simps assms(13) ..
  also have "\<dots> = Inr (str_join [CHR 0x0A] (rows_of ?cs width 1))"
    by (rule render_rows[OF assms(9) g1 assms(15) len])
  also have "rows_of ?cs width 1 = [?cs]"
    using assms(14) by (simp add: rows_of_def)
  finally have "image_to_ascii e image_path width y_scale invert gradient = Inr ?cs"
    by simp
  moreover have "length ?cs = nat width" using assms(14) by simp
  ultimately show ?thesis using nh by blast
qed

theorem nonpositive_y_scale_gives_one_row_witness:
  "isfile (uniform_env 1 1 0) ''gray.png''
   \<and> 2 \<le> length DEFAULT_GRADIENT \<and> float_nonpos (Finite (- 1 / 2))
   \<and> rnd_keeps_sign (rnd (uniform_env 1 1 0))
   \<and> scaled_height (rnd (uniform_env 1 1 0)) 1 3 1 (Finite (- 1 / 2)) = Inr (Finite (- 3 / 2))
   \<and> new_height (rnd (uniform_env 1 1 0)) 1 3 1 (Finite (- 1 / 2)) = Inr 1
   \<and> (\<exists>row. image_to_ascii (uniform_env 1 1 0) ''gray.png'' 3 (Finite (- 1 / 2)) False None
                = Inr row \<and> length row = 3)"
proof -
  let ?e = "uniform_env 1 1 0"
  let ?img = "\<lparr>size_img = (1, 1), getdata = replicate (1 * 1) (0::int)\<rparr>"
  let ?out = "\<lparr>size_img = (nat 3, nat 1), getdata = replicate (nat 3 * nat 1) (0::int)\<rparr>"
  have a1: "isfile ?e ''gray.png''" by (rule uniform_env_sel)
  have a2: "DEFAULT_GRADIENT = (case None of Some g \<Rightarrow> g | None \<Rightarrow> DEFAULT_GRADIENT)" by simp
  have a3: "2 \<le> length DEFAULT_GRADIENT" by (simp add: DEFAULT_GRADIENT_def)
  have a4: "Image_open ?e ''gray.png'' = Inr ?img" by (rule uniform_env_sel)
  have a5: "convert_L ?e ?img = Inr ?img" by (rule uniform_env_sel)
  have a6: "size_img ?img = (1, 1)" by simp
  have a7: "0 < (1::nat)" by simp
  have a9: "0 < (3::int)" by simp
  have a10: "float_nonpos (Finite (- 1 / 2))" by simp
  have a11: "rnd_keeps_sign (rnd ?e)" by (simp add: uniform_env_sel round_double_keeps_sign)
  have a12: "scaled_height (rnd ?e) 1 3 1 (Finite (- 1 / 2)) = Inr (Finite (- 3 / 2))"
    by code_simp
  have a13: "resize ?e ?img (3, 1) = Inr ?out"
    by (simp add: uniform_env_sel fill_resize_def)
  have a14: "length (getdata ?out) = nat 3" by simp
  have a15: "\<forall>p \<in> set (getdata ?out). 0 \<le> p \<and> p \<le> 255" by simp
  from nonpositive_y_scale_gives_one_row[OF a1 a2 a3 a4 a5 a6 a7 a7 a9 a10 a11 a12 a13 a14 a15,
      of False]
  show ?thesis using a1 a3 a10 a11 a12 by simp
qed

text \<open>
  C7 as stated fails at \<^verbatim>\<open>y_scale = -0.5\<close>: a black 1 by 1 image at width 3 gives the
  text \<^verbatim>\<open>@@@\<close>, not an exception.
\<close>

theorem nonpositive_y_scale_accepted:
  "float_nonpos (Finite (- 1 / 2))
   \<and> image_to_ascii (uniform_env 1 1 0) ''gray.png'' 3 (Finite (- 1 / 2)) False None
       = Inr ''@@@''"
  by code_simp

subsection \<open>Rows\<close>

text \<open>
  C2, as the code has it. For a valid file, gradient and image, a positive \<^verbatim>\<open>width\<close>
  \<open>W\<close>, a computed height \<open>new_h\<close> and a resized image of \<open>new_h * W\<close> pixels in
  \<open>[0, 255]\<close>, the function returns \<open>new_h \<ge> 1\<close> rows of exactly \<open>W\<close> characters joined by
  single newlines. When the gradient holds no newline character, splitting the text at
  the newlines gives back exactly these rows and the text does not end with a newline.
\<close>

theorem output_is_rectangular:
  assumes "isfile e image_path"
    and "G = (case gradient of Some g \<Rightarrow> g | None \<Rightarrow> DEFAULT_GRADIENT)"
    and "2 \<le> length G"
    and "Image_open e image_path = Inr raw"
    and "convert_L e raw = Inr img"
    and "size_img img = (orig_w, orig_h)" "0 < orig_w" "0 < orig_h"
    and "0 < W"
    and "new_height (rnd e) orig_h W orig_w y_scale = Inr new_h"
    and "resize e img (W, new_h) = Inr resized"
    and "length (getdata resized) = nat new_h * nat W"
    and "\<forall>p \<in> set (getdata resized). 0 \<le> p \<and> p \<le> 255"
  shows "\<exists>rows. image_to_ascii e image_path W y_scale invert gradient
                   = Inr (str_join [CHR 0x0A] rows)
           \<and> 1 \<le> new_h \<and> length rows = nat new_h
           \<and> (\<forall>r \<in> set rows. length r = nat W)
           \<and> (CHR 0x0A \<notin> set G \<longrightarrow>
                 split_on (CHR 0x0A) (str_join [CHR 0x0A] rows) = rows
                 \<and> last (str_join [CHR 0x0A] rows) \<noteq> CHR 0x0A)"
proof -
  let ?g = "if invert then rev G else G"
  let ?cs = "map (\<lambda>p. ?g ! nat (gradient_index p (length ?g))) (getdata resized)"
  let ?rows = "rows_of ?cs W (nat new_h)"
  have g1: "1 \<le> length ?g" using assms(3) by simp
  have h1: "1 \<le> new_h" by (rule new_height_ge1[OF assms(10)])
  have len: "length ?cs = nat new_h * nat W" using assms(12) by simp
  have "image_to_ascii e image_path W y_scale invert gradient = render ?g W resized"
    unfolding image_to_ascii_valid[OF assms(1-8)] assms(10) bind_res_simps assms(11) ..
  also have "\<dots> = Inr (str_join [CHR 0x0A] ?rows)"
    by (rule render_rows[OF assms(9) g1 assms(13) assms(12)])
  finally have res: "image_to_ascii e image_path W y_scale invert gradient
                       = Inr (str_join [CHR 0x0A] ?rows)" .
  note shape = rows_of_shape[OF assms(9) len]
  have ne: "?rows \<noteq> []" using shape(1) h1 by auto
  have sg: "set ?g = set G" by simp
  have "set ?cs \<subseteq> set ?g"
    by (rule chars_in_gradient[OF g1 assms(13)])
  then have cs: "set ?cs \<subseteq> set G" unfolding sg .
  have sub: "\<forall>r \<in> set ?rows. set r \<subseteq> set G"
  proof
    fix r assume "r \<in> set ?rows"
    with shape(3) have "set r \<subseteq> set ?cs" by (rule bspec)
    then show "set r \<subseteq> set G" using cs by (rule subset_trans)
  qed
  have lastne: "last ?rows \<noteq> []"
  proof -
    have "last ?rows \<in> set ?rows" using ne by simp
    then have "length (last ?rows) = nat W" using shape(2) by blast
    then show ?thesis using assms(9) by auto
  qed
  have nl: "split_on (CHR 0x0A) (str_join [CHR 0x0A] ?rows) = ?rows
            \<and> last (str_join [CHR 0x0A] ?rows) \<noteq> CHR 0x0A" if "CHR 0x0A \<notin> set G"
  proof
    have free: "\<forall>r \<in> set ?rows. CHR 0x0A \<notin> set r" using sub that by blast
    show "split_on (CHR 0x0A) (str_join [CHR 0x0A] ?rows) = ?rows"
      by (rule split_on_join[OF ne free])
    have "last (last ?rows) \<in> set (last ?rows)" using lastne by simp
    moreover have "last ?rows \<in> set ?rows" using ne by simp
    ultimately have "last (last ?rows) \<noteq> CHR 0x0A" using free by metis
    then show "last (str_join [CHR 0x0A] ?rows) \<noteq> CHR 0x0A"
      using last_join[OF ne lastne, of "[CHR 0x0A]"] by simp
  qed
  show ?thesis
  proof (intro exI[of _ ?rows] conjI)
    show "image_to_ascii e image_path W y_scale invert gradient
            = Inr (str_join [CHR 0x0A] ?rows)" by (rule res)
    show "1 \<le> new_h" by (rule h1)
    show "length ?rows = nat new_h" by (rule shape(1))
    show "\<forall>r \<in> set ?rows. length r = nat W" by (rule shape(2))
    show "CHR 0x0A \<notin> set G \<longrightarrow>
            split_on (CHR 0x0A) (str_join [CHR 0x0A] ?rows) = ?rows
            \<and> last (str_join [CHR 0x0A] ?rows) \<noteq> CHR 0x0A"
      using nl by (rule impI)
  qed
qed

theorem output_is_rectangular_witness:
  "isfile (uniform_env 2 2 128) ''gray.png''
   \<and> 2 \<le> length DEFAULT_GRADIENT \<and> CHR 0x0A \<notin> set DEFAULT_GRADIENT
   \<and> new_height (rnd (uniform_env 2 2 128)) 2 2 2 (Finite 1) = Inr 2
   \<and> (\<exists>rows. image_to_ascii (uniform_env 2 2 128) ''gray.png'' 2 (Finite 1) False None
                 = Inr (str_join [CHR 0x0A] rows)
          \<and> length rows = 2 \<and> (\<forall>r \<in> set rows. length r = 2)
          \<and> split_on (CHR 0x0A) (str_join [CHR 0x0A] rows) = rows
          \<and> last (str_join [CHR 0x0A] rows) \<noteq> CHR 0x0A)"
proof -
  let ?e = "uniform_env 2 2 128"
  let ?img = "\<lparr>size_img = (2, 2), getdata = replicate (2 * 2) (128::int)\<rparr>"
  let ?out = "\<lparr>size_img = (nat 2, nat 2), getdata = replicate (nat 2 * nat 2) (128::int)\<rparr>"
  have a1: "isfile ?e ''gray.png''" by (rule uniform_env_sel)
  have a2: "DEFAULT_GRADIENT = (case None of Some g \<Rightarrow> g | None \<Rightarrow> DEFAULT_GRADIENT)" by simp
  have a3: "2 \<le> length DEFAULT_GRADIENT" by (simp add: DEFAULT_GRADIENT_def)
  have a4: "Image_open ?e ''gray.png'' = Inr ?img" by (rule uniform_env_sel)
  have a5: "convert_L ?e ?img = Inr ?img" by (rule uniform_env_sel)
  have a6: "size_img ?img = (2, 2)" by simp
  have a7: "0 < (2::nat)" by simp
  have a9: "0 < (2::int)" by simp
  have a10: "new_height (rnd ?e) 2 2 2 (Finite 1) = Inr 2"
    by code_simp
  have a11: "resize ?e ?img (2, 2) = Inr ?out"
    by (simp add: uniform_env_sel fill_resize_def eval_nat_numeral)
  have a12: "length (getdata ?out) = nat 2 * nat 2" by simp
  have a13: "\<forall>p \<in> set (getdata ?out). 0 \<le> p \<and> p \<le> 255" by simp
  have nl: "CHR 0x0A \<notin> set DEFAULT_GRADIENT" by (simp add: DEFAULT_GRADIENT_def)
  from output_is_rectangular[OF a1 a2 a3 a4 a5 a6 a7 a7 a9 a10 a11 a12 a13, of False]
  show ?thesis using a1 a3 nl a10 by simp
qed

text \<open>
  C2 as stated fails for a gradient that holds the newline character: with the gradient
  \<^verbatim>\<open>"a\n"\<close>, a white 1 by 1 image and width 1 the height is 1 and the text is the
  single character \<^verbatim>\<open>"\n"\<close>, which splits into two rows of length 0.
\<close>

theorem newline_in_gradient_breaks_rows:
  "new_height (rnd (uniform_env 1 1 255)) 1 1 1 (Finite 1) = Inr 1
   \<and> image_to_ascii (uniform_env 1 1 255) ''gray.png'' 1 (Finite 1) False
        (Some [CHR ''a'', CHR 0x0A]) = Inr [CHR 0x0A]
   \<and> split_on (CHR 0x0A) [CHR 0x0A] = [[], []]
   \<and> length (split_on (CHR 0x0A) [CHR 0x0A]) \<noteq> 1
   \<and> length (hd (split_on (CHR 0x0A) [CHR 0x0A])) \<noteq> 1"
  by code_simp

end
